theory Spec2Isabelle
  imports Complex_Main "HOL-Library.Word"
begin

section \<open>JavaScript numbers\<close>

text \<open>
  Every number of the analyzer is a JavaScript Number, an IEEE 754 binary64 value.
  A finite value is modelled by the real number it denotes; the two infinities and NaN
  are separate constructors. Zero is unsigned: the analyzer never divides a non-zero
  number by zero and never inspects the sign of a zero. Each arithmetic operation
  computes the exact real result and rounds it to the nearest binary64 value, ties to
  the even significand, as the language standard prescribes.
\<close>

datatype jsnum = Fin real | PInf | NInf | NaN

text \<open>Rounding of a real to the nearest integer, ties to the even one.\<close>

definition rte :: "real \<Rightarrow> int" where
  "rte x = (let f = \<lfloor>x\<rfloor>; d = x - of_int f in
            if d < 1/2 then f else if 1/2 < d then f + 1
            else if even f then f else f + 1)"

text \<open>
  The binary exponent of a real, clamped below at the exponent of the smallest normal
  number, and the spacing of the binary64 grid around it (53 significant bits).
\<close>

definition expo :: "real \<Rightarrow> int" where
  "expo x = (if x = 0 then - 1022 else max \<lfloor>log 2 \<bar>x\<bar>\<rfloor> (- 1022))"

definition ulp :: "real \<Rightarrow> real" where
  "ulp x = 2 powi (expo x - 52)"

definition quant :: "real \<Rightarrow> real" where
  "quant x = of_int (rte (x / ulp x)) * ulp x"

definition max_double :: real where
  "max_double = (2 ^ 53 - 1) * 2 ^ 971"

definition rnd :: "real \<Rightarrow> jsnum" where
  "rnd x = (let q = quant x in
            if max_double < \<bar>q\<bar> then (if 0 < x then PInf else NInf) else Fin q)"

fun fneg :: "jsnum \<Rightarrow> jsnum" where
  "fneg (Fin a) = Fin (- a)"
| "fneg PInf = NInf"
| "fneg NInf = PInf"
| "fneg NaN = NaN"

fun fadd :: "jsnum \<Rightarrow> jsnum \<Rightarrow> jsnum" where
  "fadd (Fin a) (Fin b) = rnd (a + b)"
| "fadd NaN y = NaN"
| "fadd x NaN = NaN"
| "fadd PInf NInf = NaN"
| "fadd NInf PInf = NaN"
| "fadd PInf y = PInf"
| "fadd x PInf = PInf"
| "fadd NInf y = NInf"
| "fadd x NInf = NInf"

definition fsub :: "jsnum \<Rightarrow> jsnum \<Rightarrow> jsnum" where
  "fsub x y = fadd x (fneg y)"

fun fmul :: "jsnum \<Rightarrow> jsnum \<Rightarrow> jsnum" where
  "fmul (Fin a) (Fin b) = rnd (a * b)"
| "fmul NaN y = NaN"
| "fmul x NaN = NaN"
| "fmul PInf (Fin b) = (if b = 0 then NaN else if 0 < b then PInf else NInf)"
| "fmul NInf (Fin b) = (if b = 0 then NaN else if 0 < b then NInf else PInf)"
| "fmul (Fin a) PInf = (if a = 0 then NaN else if 0 < a then PInf else NInf)"
| "fmul (Fin a) NInf = (if a = 0 then NaN else if 0 < a then NInf else PInf)"
| "fmul PInf PInf = PInf"
| "fmul NInf NInf = PInf"
| "fmul PInf NInf = NInf"
| "fmul NInf PInf = NInf"

fun fdiv :: "jsnum \<Rightarrow> jsnum \<Rightarrow> jsnum" where
  "fdiv (Fin a) (Fin b) =
     (if b = 0 then (if a = 0 then NaN else if 0 < a then PInf else NInf)
      else rnd (a / b))"
| "fdiv NaN y = NaN"
| "fdiv x NaN = NaN"
| "fdiv (Fin a) PInf = Fin 0"
| "fdiv (Fin a) NInf = Fin 0"
| "fdiv PInf (Fin b) = (if 0 \<le> b then PInf else NInf)"
| "fdiv NInf (Fin b) = (if 0 \<le> b then NInf else PInf)"
| "fdiv x y = NaN"

text \<open>The comparison \<open>x < y\<close>; it is false as soon as one side is NaN.\<close>

fun flt :: "jsnum \<Rightarrow> jsnum \<Rightarrow> bool" where
  "flt (Fin a) (Fin b) = (a < b)"
| "flt NaN y = False"
| "flt x NaN = False"
| "flt x NInf = False"
| "flt PInf y = False"
| "flt NInf y = True"
| "flt x PInf = True"

definition fgt :: "jsnum \<Rightarrow> jsnum \<Rightarrow> bool" where
  "fgt x y = flt y x"

text \<open>\<open>Math.max\<close> of two numbers, \<open>Math.sqrt\<close> and \<open>Math.round\<close>.\<close>

fun fmax :: "jsnum \<Rightarrow> jsnum \<Rightarrow> jsnum" where
  "fmax NaN y = NaN"
| "fmax x NaN = NaN"
| "fmax x y = (if flt x y then y else x)"

fun fsqrt :: "jsnum \<Rightarrow> jsnum" where
  "fsqrt (Fin a) = (if a < 0 then NaN else rnd (sqrt a))"
| "fsqrt PInf = PInf"
| "fsqrt NInf = NaN"
| "fsqrt NaN = NaN"

fun fround :: "jsnum \<Rightarrow> jsnum" where
  "fround (Fin a) = Fin (of_int \<lfloor>a + 1/2\<rfloor>)"
| "fround x = x"

text \<open>A decimal literal of the source denotes the binary64 value nearest to it.\<close>

definition lit :: "real \<Rightarrow> jsnum" where
  "lit x = rnd x"

section \<open>Images\<close>

type_synonym byte = "8 word"

text \<open>
  A decoded image as the analyzer reads it through the image library's accessors:
  \<open>get_width\<close>, \<open>get_height\<close>, \<open>get_rowstride\<close>, \<open>get_has_alpha\<close> and
  \<open>get_pixels\<close>.
\<close>

record pixbuf =
  get_width :: nat
  get_height :: nat
  get_rowstride :: nat
  get_has_alpha :: bool
  get_pixels :: "byte list"

definition n_channels :: "pixbuf \<Rightarrow> nat" where
  "n_channels p = (if get_has_alpha p then 4 else 3)"

text \<open>
  Modelled from the spec: the image library's \<open>new_subpixbuf\<close>, which is not part of
  the repository. The spec (section 4.1) describes it as the crop of a sub-region
  that starts at the given pixel and has the given width and height. The region shares
  the rows of the image: same row stride and channels, the pixel data starting at the
  region's first pixel.
\<close>

definition crop :: "pixbuf \<Rightarrow> int \<Rightarrow> int \<Rightarrow> int \<Rightarrow> int \<Rightarrow> pixbuf" where
  "crop src src_x src_y w h =
     \<lparr> get_width = nat w,
       get_height = nat h,
       get_rowstride = get_rowstride src,
       get_has_alpha = get_has_alpha src,
       get_pixels = drop (nat src_y * get_rowstride src + nat src_x * n_channels src)
                         (get_pixels src) \<rparr>"

text \<open>A rectangle of at least one pixel that lies inside the image.\<close>

definition inside :: "pixbuf \<Rightarrow> int \<Rightarrow> int \<Rightarrow> int \<Rightarrow> int \<Rightarrow> bool" where
  "inside src src_x src_y w h =
     (0 \<le> src_x \<and> 0 \<le> src_y \<and> 1 \<le> w \<and> 1 \<le> h \<and>
      src_x + w \<le> int (get_width src) \<and> src_y + h \<le> int (get_height src))"

text \<open>
  Modelled from the spec: what the library hands back. The spec (sections 4.1 and 7)
  makes an empty strip a failure, not a statistics record, and the contract of the
  library agrees with it: the rectangle has to lie inside the image and, a pixbuf
  having at least one row and one column, must not be empty; otherwise the library
  creates no pixbuf and returns null.
\<close>

definition new_subpixbuf :: "pixbuf \<Rightarrow> int \<Rightarrow> int \<Rightarrow> int \<Rightarrow> int \<Rightarrow> pixbuf option" where
  "new_subpixbuf src src_x src_y w h =
     (if inside src src_x src_y w h then Some (crop src src_x src_y w h) else None)"

section \<open>Sampling statistics\<close>

record rgb =
  rgb_r :: jsnum
  rgb_g :: jsnum
  rgb_b :: jsnum

text \<open>The result object of \<open>#analyzePixels\<close>.\<close>

record analysis =
  meanLuminance :: jsnum
  luminanceStd :: jsnum
  minLuminosity :: jsnum
  maxLuminosity :: jsnum
  minRGB :: rgb
  maxRGB :: rgb
  sampleCount :: nat
  width :: nat
  height :: nat

text \<open>
  The local variables that the sampling loop of \<open>#analyzePixels\<close> updates. The loop
  counters and \<open>sampleCount\<close> are integers below \<open>2^53\<close> for every buffer that fits
  in memory, where the arithmetic of Numbers is exact; they are natural numbers here.
\<close>

record sampler =
  totalLuminosity :: jsnum
  luminositySquaredSum :: jsnum
  minLuminosity_acc :: jsnum
  maxLuminosity_acc :: jsnum
  minRGB_acc :: rgb
  maxRGB_acc :: rgb
  sampleCount_acc :: nat

definition sampler_init :: sampler where
  "sampler_init =
     \<lparr> totalLuminosity = Fin 0,
       luminositySquaredSum = Fin 0,
       minLuminosity_acc = Fin 1,
       maxLuminosity_acc = Fin 0,
       minRGB_acc = \<lparr> rgb_r = Fin 255, rgb_g = Fin 255, rgb_b = Fin 255 \<rparr>,
       maxRGB_acc = \<lparr> rgb_r = Fin 0, rgb_g = Fin 0, rgb_b = Fin 0 \<rparr>,
       sampleCount_acc = 0 \<rparr>"

text \<open>
  \<open>pixels[i]\<close> on the byte array: the byte as a number, or \<open>undefined\<close> beyond the
  end of the array, which the division by 255 turns into NaN.
\<close>

definition pixel_at :: "byte list \<Rightarrow> nat \<Rightarrow> jsnum" where
  "pixel_at pixels i = (if i < length pixels then Fin (of_nat (unat (pixels ! i))) else NaN)"

definition channel :: "byte list \<Rightarrow> nat \<Rightarrow> jsnum" where
  "channel pixels i = fdiv (pixel_at pixels i) (Fin 255)"

definition luminosity_of :: "jsnum \<Rightarrow> jsnum \<Rightarrow> jsnum \<Rightarrow> jsnum" where
  "luminosity_of r g b =
     fadd (fadd (fmul (lit 0.299) r) (fmul (lit 0.587) g)) (fmul (lit 0.114) b)"

definition round_rgb :: "jsnum \<Rightarrow> jsnum \<Rightarrow> jsnum \<Rightarrow> rgb" where
  "round_rgb r g b =
     \<lparr> rgb_r = fround (fmul r (Fin 255)),
       rgb_g = fround (fmul g (Fin 255)),
       rgb_b = fround (fmul b (Fin 255)) \<rparr>"

text \<open>The body of the inner loop, for the pixel at byte offset \<open>pixelIndex\<close>.\<close>

definition sample_pixel :: "byte list \<Rightarrow> nat \<Rightarrow> sampler \<Rightarrow> sampler" where
  "sample_pixel pixels pixelIndex s =
     (let r = channel pixels pixelIndex;
          g = channel pixels (pixelIndex + 1);
          b = channel pixels (pixelIndex + 2);
          luminosity = luminosity_of r g b;
          s1 = s\<lparr> totalLuminosity := fadd (totalLuminosity s) luminosity,
                  luminositySquaredSum :=
                    fadd (luminositySquaredSum s) (fmul luminosity luminosity) \<rparr>;
          s2 = (if flt luminosity (minLuminosity_acc s1)
                then s1\<lparr> minLuminosity_acc := luminosity, minRGB_acc := round_rgb r g b \<rparr>
                else s1);
          s3 = (if fgt luminosity (maxLuminosity_acc s2)
                then s2\<lparr> maxLuminosity_acc := luminosity, maxRGB_acc := round_rgb r g b \<rparr>
                else s2)
      in s3\<lparr> sampleCount_acc := sampleCount_acc s3 + 1 \<rparr>)"

text \<open>The inner loop \<open>for (let x = xOffset; x < width; x += 4)\<close> of row \<open>y\<close>.\<close>

function sample_row ::
  "byte list \<Rightarrow> nat \<Rightarrow> nat \<Rightarrow> nat \<Rightarrow> nat \<Rightarrow> nat \<Rightarrow> sampler \<Rightarrow> sampler" where
  "sample_row pixels w rowstride channels y x s =
     (if x < w
      then sample_row pixels w rowstride channels y (x + 4)
             (sample_pixel pixels (y * rowstride + x * channels) s)
      else s)"
  by pat_completeness auto
termination
  by (relation "measure (\<lambda>(pixels, w, rowstride, channels, y, x, s). w - x)") auto

declare sample_row.simps [simp del]

definition xOffset :: "nat \<Rightarrow> nat" where
  "xOffset y = (if y mod 4 = 0 then 0 else 2)"

text \<open>The outer loop \<open>for (let y = 0; y < height; y += 2)\<close>.\<close>

function sample_rows ::
  "byte list \<Rightarrow> nat \<Rightarrow> nat \<Rightarrow> nat \<Rightarrow> nat \<Rightarrow> nat \<Rightarrow> sampler \<Rightarrow> sampler" where
  "sample_rows pixels w h rowstride channels y s =
     (if y < h
      then sample_rows pixels w h rowstride channels (y + 2)
             (sample_row pixels w rowstride channels y (xOffset y) s)
      else s)"
  by pat_completeness auto
termination
  by (relation "measure (\<lambda>(pixels, w, h, rowstride, channels, y, s). h - y)") auto

declare sample_rows.simps [simp del]

definition analyzePixels :: "byte list \<Rightarrow> nat \<Rightarrow> nat \<Rightarrow> nat \<Rightarrow> nat \<Rightarrow> analysis" where
  "analyzePixels pixels w h rowstride channels =
     (let s = sample_rows pixels w h rowstride channels 0 sampler_init;
          mean = fdiv (totalLuminosity s) (Fin (of_nat (sampleCount_acc s)));
          variance = fsub (fdiv (luminositySquaredSum s) (Fin (of_nat (sampleCount_acc s))))
                          (fmul mean mean);
          std = fsqrt (fmax (Fin 0) variance)
      in \<lparr> meanLuminance = mean,
           luminanceStd = std,
           minLuminosity = minLuminosity_acc s,
           maxLuminosity = maxLuminosity_acc s,
           minRGB = minRGB_acc s,
           maxRGB = maxRGB_acc s,
           sampleCount = sampleCount_acc s,
           width = w,
           height = h \<rparr>)"

definition analyzeTopRegion :: "pixbuf \<Rightarrow> analysis" where
  "analyzeTopRegion bgSlice =
     analyzePixels (get_pixels bgSlice) (get_width bgSlice) (get_height bgSlice)
       (get_rowstride bgSlice) (if get_has_alpha bgSlice then 4 else 3)"

section \<open>Classification\<close>

datatype style = Dark | Light | TranslucentDark | TranslucentLight | Maximized

definition STD_THRESHOLD :: jsnum where
  "STD_THRESHOLD = fdiv (Fin 45) (Fin 255)"

text \<open>The intermediate values of \<open>#determineStyle\<close>, one per \<open>const\<close> of the source.\<close>

definition isBgDark :: "analysis \<Rightarrow> jsnum \<Rightarrow> bool" where
  "isBgDark a LUMINANCE_THRESHOLD = flt (meanLuminance a) LUMINANCE_THRESHOLD"

definition highVariance :: "analysis \<Rightarrow> bool" where
  "highVariance a = fgt (luminanceStd a) STD_THRESHOLD"

definition nearBoundary :: "analysis \<Rightarrow> jsnum \<Rightarrow> bool" where
  "nearBoundary a LUMINANCE_THRESHOLD =
     (flt (meanLuminance a) LUMINANCE_THRESHOLD \<and>
      fgt (fadd (meanLuminance a) (fmul (lit 1.645) (luminanceStd a))) LUMINANCE_THRESHOLD)"

definition range_of :: "analysis \<Rightarrow> jsnum" where
  "range_of a = fsub (maxLuminosity a) (minLuminosity a)"

definition highContrast :: "analysis \<Rightarrow> bool" where
  "highContrast a = fgt (range_of a) (lit 0.5)"

definition isBusy :: "analysis \<Rightarrow> jsnum \<Rightarrow> bool" where
  "isBusy a LUMINANCE_THRESHOLD =
     (highVariance a \<or> nearBoundary a LUMINANCE_THRESHOLD \<or> highContrast a)"

text \<open>Step 3 of \<open>#determineStyle\<close>: the state and its description.\<close>

definition state_of :: "bool \<Rightarrow> bool \<Rightarrow> style \<times> string" where
  "state_of dark busy =
     (if dark
      then (if busy then (TranslucentDark, ''dark panel + white text'')
            else (Dark, ''transparent + white text''))
      else (if busy then (TranslucentLight, ''light panel + black text'')
            else (Light, ''transparent + black text'')))"

definition determineStyle :: "analysis \<Rightarrow> jsnum \<Rightarrow> style" where
  "determineStyle a LUMINANCE_THRESHOLD =
     fst (state_of (isBgDark a LUMINANCE_THRESHOLD) (isBusy a LUMINANCE_THRESHOLD))"

section \<open>Logging\<close>

text \<open>
  The console is the only state the analyzer writes. A message is the template literal
  of the source as the list of its parts: the literal text and the interpolated values,
  each with the formatting the source applies to it.
\<close>

datatype part =
    Str string
  | Plain nat
  | Fixed3 jsnum
  | Flag bool
  | Label style
  | ColorSquare rgb
  | Hex rgb

type_synonym message = "part list"

datatype console_line = ConsoleLog message | ConsoleError message

type_synonym console = "console_line list"

definition Logger_prefix :: string where
  "Logger_prefix = ''Nowa Desktop''"

definition Logger_log :: "message \<Rightarrow> console \<Rightarrow> console" where
  "Logger_log m c = c @ [ConsoleLog (Str Logger_prefix # Str '': '' # m)]"

definition Logger_error :: "message \<Rightarrow> console \<Rightarrow> console" where
  "Logger_error m c = c @ [ConsoleError (Str Logger_prefix # Str '': '' # m)]"

text \<open>The lines that \<open>#determineStyle\<close> logs, in order.\<close>

definition determineStyle_messages :: "analysis \<Rightarrow> jsnum \<Rightarrow> message list" where
  "determineStyle_messages a LUMINANCE_THRESHOLD =
     [ [Str ''=== WALLPAPER ANALYSIS ===''],
       [Str ''sample: '', Plain (width a), Str ''x'', Plain (height a), Str '' ('',
        Plain (sampleCount a), Str '' pixels)''],
       [Str ''mean_luminance: '', Fixed3 (meanLuminance a)],
       [Str ''std: '', Fixed3 (luminanceStd a)],
       [Str ''darkest_color: '', Fixed3 (minLuminosity a), Str '' ('',
        ColorSquare (minRGB a), Str '' '', Hex (minRGB a), Str '')''],
       [Str ''lightest_color: '', Fixed3 (maxLuminosity a), Str '' ('',
        ColorSquare (maxRGB a), Str '' '', Hex (maxRGB a), Str '')''],
       [Str ''is_bg_dark: '', Flag (isBgDark a LUMINANCE_THRESHOLD), Str '' (threshold: '',
        Fixed3 LUMINANCE_THRESHOLD, Str '')''],
       [Str ''is_busy: '', Flag (isBusy a LUMINANCE_THRESHOLD), Str '' (high_variance: '',
        Flag (highVariance a), Str '', near_boundary: '',
        Flag (nearBoundary a LUMINANCE_THRESHOLD), Str '', high_contrast: '',
        Flag (highContrast a), Str '', range: '', Fixed3 (range_of a), Str '')''],
       [Str ''=== RESULT: '',
        Label (fst (state_of (isBgDark a LUMINANCE_THRESHOLD) (isBusy a LUMINANCE_THRESHOLD))),
        Str '' ('',
        Str (snd (state_of (isBgDark a LUMINANCE_THRESHOLD) (isBusy a LUMINANCE_THRESHOLD))),
        Str '') ===''] ]"

definition determineStyle_log :: "analysis \<Rightarrow> jsnum \<Rightarrow> console \<Rightarrow> console" where
  "determineStyle_log a LUMINANCE_THRESHOLD c =
     foldl (\<lambda>c' m. Logger_log m c') c (determineStyle_messages a LUMINANCE_THRESHOLD)"

section \<open>The entry point\<close>

text \<open>
  The value \<open>analyze\<close> returns: the style with the statistics, or, from the
  \<open>catch\<close> branch, a style, a mean luminance and the error message.
\<close>

datatype style_result =
    StyleResult style analysis
  | Fallback style jsnum string

fun result_style :: "style_result \<Rightarrow> style" where
  "result_style (StyleResult st a) = st"
| "result_style (Fallback st m e) = st"

fun result_meanLuminance :: "style_result \<Rightarrow> jsnum" where
  "result_meanLuminance (StyleResult st a) = meanLuminance a"
| "result_meanLuminance (Fallback st m e) = m"

fun result_error :: "style_result \<Rightarrow> string option" where
  "result_error (StyleResult st a) = None"
| "result_error (Fallback st m e) = Some e"

text \<open>
  Modelled from the spec: the image library's loader \<open>new_from_file\<close>, an external
  collaborator that decodes the file. It is a parameter \<open>decode\<close>, a function of the
  path and of the bytes stored there (\<open>None\<close> for a missing file); it returns the
  decoded image, or the message of the exception it throws.
\<close>

type_synonym decoder = "string \<Rightarrow> byte list option \<Rightarrow> string + pixbuf"

definition new_from_file ::
  "decoder \<Rightarrow> (string \<rightharpoonup> byte list) \<Rightarrow> string \<Rightarrow> string + pixbuf" where
  "new_from_file decode files path = decode path (files path)"

definition PADDING :: int where
  "PADDING = 4"

definition default_luminanceThreshold :: jsnum where
  "default_luminanceThreshold = lit 0.575"

definition default_panelHeight :: int where
  "default_panelHeight = 32"

text \<open>The rectangle that \<open>analyze\<close> asks the library to crop: x, y, width, height.\<close>

definition crop_rect :: "pixbuf \<Rightarrow> int \<Rightarrow> int \<times> int \<times> int \<times> int" where
  "crop_rect fullPixbuf panelHeight =
     (let fullWidth = int (get_width fullPixbuf);
          fullHeight = int (get_height fullPixbuf)
      in (PADDING, PADDING,
          max 1 (fullWidth - (PADDING * 2)),
          max 0 (min panelHeight fullHeight - PADDING)))"

text \<open>
  The message of the TypeError that the first method call of \<open>#analyzeTopRegion\<close>
  throws when \<open>bgSlice\<close> is null.
\<close>

definition null_message :: string where
  "null_message = ''bgSlice is null''"

definition analyze ::
  "decoder \<Rightarrow> (string \<rightharpoonup> byte list) \<Rightarrow> string \<Rightarrow> jsnum \<Rightarrow> int \<Rightarrow> console
     \<Rightarrow> style_result \<times> console" where
  "analyze decode files wallpaperPath luminanceThreshold panelHeight c =
     (case new_from_file decode files wallpaperPath of
        Inl message \<Rightarrow>
          (Fallback Dark (lit 0.5) message,
           Logger_error [Str ''WallpaperAnalyzer: Failed to analyze - '', Str message] c)
      | Inr fullPixbuf \<Rightarrow>
          (case crop_rect fullPixbuf panelHeight of (src_x, src_y, w, h) \<Rightarrow>
             (case new_subpixbuf fullPixbuf src_x src_y w h of
                None \<Rightarrow>
                  (Fallback Dark (lit 0.5) null_message,
                   Logger_error
                     [Str ''WallpaperAnalyzer: Failed to analyze - '', Str null_message] c)
              | Some bgSlice \<Rightarrow>
                  let a = analyzeTopRegion bgSlice;
                      st = determineStyle a luminanceThreshold
                  in (StyleResult st a, determineStyle_log a luminanceThreshold c))))"

section \<open>The classification as the specification words it\<close>

definition spec_isDark :: "analysis \<Rightarrow> jsnum \<Rightarrow> bool" where
  "spec_isDark a luminanceThreshold = flt (meanLuminance a) luminanceThreshold"

definition spec_isBusy :: "analysis \<Rightarrow> jsnum \<Rightarrow> bool" where
  "spec_isBusy a luminanceThreshold =
     (fgt (luminanceStd a) (fdiv (Fin 45) (Fin 255))
      \<or> (flt (meanLuminance a) luminanceThreshold \<and>
          fgt (fadd (meanLuminance a) (fmul (lit 1.645) (luminanceStd a))) luminanceThreshold)
      \<or> fgt (fsub (maxLuminosity a) (minLuminosity a)) (lit 0.5))"

fun spec_table :: "bool \<Rightarrow> bool \<Rightarrow> style" where
  "spec_table True True = TranslucentDark"
| "spec_table True False = Dark"
| "spec_table False True = TranslucentLight"
| "spec_table False False = Light"

definition light_family :: "style \<Rightarrow> bool" where
  "light_family st = (st = Light \<or> st = TranslucentLight)"

section \<open>The sampling as the specification words it\<close>

text \<open>The comparison \<open>x \<le> y\<close> of two numbers; false as soon as one side is NaN.\<close>

fun fle :: "jsnum \<Rightarrow> jsnum \<Rightarrow> bool" where
  "fle (Fin a) (Fin b) = (a \<le> b)"
| "fle NaN y = False"
| "fle x NaN = False"
| "fle NInf y = True"
| "fle x PInf = True"
| "fle x NInf = False"
| "fle PInf y = False"

definition in_unit :: "jsnum \<Rightarrow> bool" where
  "in_unit x = (fle (Fin 0) x \<and> fle x (Fin 1))"

text \<open>The values \<open>a, a + d, a + 2d, ...\<close> below \<open>n\<close>.\<close>

definition steps :: "nat \<Rightarrow> nat \<Rightarrow> nat \<Rightarrow> nat list" where
  "steps a d n = filter (\<lambda>x. a \<le> x \<and> (x - a) mod d = 0) [0..<n]"

definition spec_rows :: "nat \<Rightarrow> nat list" where
  "spec_rows h = steps 0 2 h"

definition spec_cols :: "nat \<Rightarrow> nat \<Rightarrow> nat list" where
  "spec_cols w y = steps (if y mod 4 = 0 then 0 else 2) 4 w"

definition spec_offsets :: "nat \<Rightarrow> nat \<Rightarrow> nat \<Rightarrow> nat \<Rightarrow> nat list" where
  "spec_offsets w h rowStride channels =
     concat (map (\<lambda>y. map (\<lambda>x. y * rowStride + x * channels) (spec_cols w y)) (spec_rows h))"

definition spec_luminosity :: "byte list \<Rightarrow> nat \<Rightarrow> jsnum" where
  "spec_luminosity pixels off =
     (let R = fdiv (pixel_at pixels off) (Fin 255);
          G = fdiv (pixel_at pixels (off + 1)) (Fin 255);
          B = fdiv (pixel_at pixels (off + 2)) (Fin 255)
      in fadd (fadd (fmul (lit 0.299) R) (fmul (lit 0.587) G)) (fmul (lit 0.114) B))"

definition spec_luminosities :: "byte list \<Rightarrow> nat \<Rightarrow> nat \<Rightarrow> nat \<Rightarrow> nat \<Rightarrow> jsnum list" where
  "spec_luminosities pixels w h rowStride channels =
     map (spec_luminosity pixels) (spec_offsets w h rowStride channels)"

text \<open>The running sum of a list of numbers, in the order of the list.\<close>

definition spec_sum :: "jsnum list \<Rightarrow> jsnum" where
  "spec_sum ls = foldl fadd (Fin 0) ls"

definition spec_mean :: "jsnum list \<Rightarrow> jsnum" where
  "spec_mean ls = fdiv (spec_sum ls) (Fin (of_nat (length ls)))"

definition spec_std :: "jsnum list \<Rightarrow> jsnum" where
  "spec_std ls =
     fsqrt (fmax (Fin 0)
       (fsub (fdiv (spec_sum (map (\<lambda>l. fmul l l) ls)) (Fin (of_nat (length ls))))
             (fmul (spec_mean ls) (spec_mean ls))))"

text \<open>
  A buffer that holds the region: the last row may be shorter than the row stride, and
  each pixel has at least the three colour bytes.
\<close>

definition holds_region :: "byte list \<Rightarrow> nat \<Rightarrow> nat \<Rightarrow> nat \<Rightarrow> nat \<Rightarrow> bool" where
  "holds_region pixels w h rowStride channels =
     (3 \<le> channels \<and> (h - 1) * rowStride + w * channels \<le> length pixels)"

section \<open>Vocabulary of the numeric bounds\<close>

text \<open>A finite number between 0 and \<open>B\<close>.\<close>

definition between0 :: "real \<Rightarrow> jsnum \<Rightarrow> bool" where
  "between0 B x = (case x of Fin r \<Rightarrow> 0 \<le> r \<and> r \<le> B | PInf \<Rightarrow> False | NInf \<Rightarrow> False | NaN \<Rightarrow> False)"

text \<open>
  The largest value a running sum of \<open>n\<close> numbers of the unit interval can reach:
  above \<open>2^53\<close> adding 1 no longer changes a binary64 value.
\<close>

definition cap53 :: "nat \<Rightarrow> real" where
  "cap53 n = min (of_nat n) (2 ^ 53)"

text \<open>
  The binary64 values of the three luminosity coefficients, of the sum of the first two
  and of the sum of all three, which is the luminosity of a white pixel.
\<close>

definition c299 :: real where
  "c299 = 5386305154335113 / 2 ^ 54"

definition c587 :: real where
  "c587 = 2643612981266481 / 2 ^ 52"

definition c114 :: real where
  "c114 = 8214565720323785 / 2 ^ 56"

definition c886 :: real where
  "c886 = 3990189269850259 / 2 ^ 52"

definition c_white :: real where
  "c_white = 9007199254740991 / 2 ^ 53"

section \<open>Example inputs\<close>

text \<open>An all-black RGB image of 100 by 100 pixels, and a decoder that yields it.\<close>

definition black_100 :: pixbuf where
  "black_100 =
     \<lparr> get_width = 100, get_height = 100, get_rowstride = 300, get_has_alpha = False,
       get_pixels = replicate 30000 0 \<rparr>"

definition decode_black :: decoder where
  "decode_black path content =
     (case content of None \<Rightarrow> Inl ''Failed to open file'' | Some bytes \<Rightarrow> Inr black_100)"

definition one_file :: "string \<rightharpoonup> byte list" where
  "one_file = [''/wallpaper.png'' \<mapsto> [137, 80, 78, 71]]"

text \<open>An all-black RGB image 3 pixels wide and 10 pixels high, and its decoder.\<close>

definition narrow_10 :: pixbuf where
  "narrow_10 =
     \<lparr> get_width = 3, get_height = 10, get_rowstride = 9, get_has_alpha = False,
       get_pixels = replicate 90 0 \<rparr>"

definition decode_narrow :: decoder where
  "decode_narrow path content =
     (case content of None \<Rightarrow> Inl ''Failed to open file'' | Some bytes \<Rightarrow> Inr narrow_10)"

text \<open>One row of nine RGB pixels, each of the dark gray (11, 11, 11).\<close>

definition gray_row :: "byte list" where
  "gray_row = replicate 27 11"

text \<open>The statistics of a uniform bright region.\<close>

definition bright_stats :: analysis where
  "bright_stats =
     \<lparr> meanLuminance = Fin (3 / 4), luminanceStd = Fin 0,
       minLuminosity = Fin (3 / 4), maxLuminosity = Fin (3 / 4),
       minRGB = \<lparr> rgb_r = Fin 191, rgb_g = Fin 191, rgb_b = Fin 191 \<rparr>,
       maxRGB = \<lparr> rgb_r = Fin 191, rgb_g = Fin 191, rgb_b = Fin 191 \<rparr>,
       sampleCount = 1, width = 1, height = 1 \<rparr>"

section \<open>Rounding to binary64\<close>

text \<open>
  Facts about the rounding: it is monotone on the non-negative reals, it leaves every
  binary64 value unchanged, and on a real with a known binary exponent it is computed by
  one integer rounding.
\<close>

lemma rte_of_int [simp]: "rte (of_int k) = k"
  by (simp add: rte_def)

lemma rte_0 [simp]: "rte 0 = 0"
  using rte_of_int [of 0] by simp

lemma rte_floor: "\<lfloor>x\<rfloor> \<le> rte x \<and> rte x \<le> \<lfloor>x\<rfloor> + 1"
  by (simp add: rte_def Let_def)

lemma rte_mono:
  assumes "x \<le> y"
  shows "rte x \<le> rte y"
proof (cases "\<lfloor>x\<rfloor> = \<lfloor>y\<rfloor>")
  case True
  with assms have "x - of_int \<lfloor>x\<rfloor> \<le> y - of_int \<lfloor>y\<rfloor>"
    by simp
  with True show ?thesis
    by (auto simp: rte_def Let_def)
next
  case False
  with assms have "\<lfloor>x\<rfloor> + 1 \<le> \<lfloor>y\<rfloor>"
    using floor_mono [of x y] by linarith
  with rte_floor [of x] rte_floor [of y] show ?thesis
    by linarith
qed

lemma rte_abs_le:
  assumes "\<bar>z\<bar> \<le> of_int n"
  shows "\<bar>rte z\<bar> \<le> n"
proof -
  from assms have "of_int (- n) \<le> z" "z \<le> of_int n"
    by simp_all
  from rte_mono [OF this(1)] rte_mono [OF this(2)] show ?thesis
    by (simp only: rte_of_int)
qed

lemma two_powi_eq_powr: "(2::real) powi n = 2 powr (of_int n)"
  by (simp add: powr_real_of_int')

lemma floor_log2_lower:
  assumes "0 < x"
  shows "2 powi \<lfloor>log 2 x\<rfloor> \<le> x"
proof -
  have "2 powr (of_int \<lfloor>log 2 x\<rfloor>) \<le> 2 powr (log 2 x)"
    by (simp add: powr_le_cancel_iff)
  with assms show ?thesis
    by (simp add: two_powi_eq_powr)
qed

lemma floor_log2_upper:
  assumes "0 < x"
  shows "x < 2 powi (\<lfloor>log 2 x\<rfloor> + 1)"
proof -
  have "log 2 x < of_int (\<lfloor>log 2 x\<rfloor> + 1)"
    by linarith
  then have "2 powr (log 2 x) < 2 powr (of_int (\<lfloor>log 2 x\<rfloor> + 1))"
    by (simp only: powr_less_cancel_iff) 
  with assms show ?thesis
    by (simp add: two_powi_eq_powr)
qed

lemma floor_log2_eqI:
  assumes "2 powi e \<le> x" and "x < 2 powi (e + 1)"
  shows "\<lfloor>log 2 x\<rfloor> = e"
proof -
  have pos: "0 < x"
    using assms(1) zero_less_power_int [of "2::real" e] by linarith
  have "of_int e \<le> log 2 x"
    using assms(1) pos by (simp add: le_log_iff two_powi_eq_powr)
  moreover have "log 2 x < of_int (e + 1)"
    using assms(2) pos by (simp add: log_less_iff two_powi_eq_powr)
  ultimately show ?thesis
    by linarith
qed

lemma expo_eqI:
  assumes "2 powi e \<le> \<bar>x\<bar>" and "\<bar>x\<bar> < 2 powi (e + 1)" and "- 1022 \<le> e"
  shows "expo x = e"
proof -
  have "(0::real) < 2 powi e"
    by simp
  with assms(1) have "0 < \<bar>x\<bar>"
    by linarith
  then have "x \<noteq> 0"
    by simp
  with floor_log2_eqI [OF assms(1,2)] assms(3) show ?thesis
    by (simp add: expo_def)
qed

lemma expo_ge: "- 1022 \<le> expo x"
  by (simp add: expo_def)

lemma expo_mono:
  assumes "0 < x" and "x \<le> y"
  shows "expo x \<le> expo y"
proof -
  have "log 2 x \<le> log 2 y"
    using assms by simp
  then have "\<lfloor>log 2 x\<rfloor> \<le> \<lfloor>log 2 y\<rfloor>"
    by (rule floor_mono)
  with assms show ?thesis
    by (simp add: expo_def)
qed

lemma expo_le_0:
  assumes "\<bar>x\<bar> \<le> 1"
  shows "expo x \<le> 0"
proof (cases "x = 0")
  case True
  then show ?thesis by (simp add: expo_def)
next
  case False
  with assms have "log 2 \<bar>x\<bar> \<le> 0"
    by simp
  then have "\<lfloor>log 2 \<bar>x\<bar>\<rfloor> \<le> 0"
    by linarith
  with False show ?thesis
    by (simp add: expo_def)
qed

lemma ulp_pos [simp]: "0 < ulp x"
  by (simp add: ulp_def)

lemma ulp_nz: "ulp x \<noteq> 0"
  using ulp_pos [of x] by linarith

lemma quant_0 [simp]: "quant 0 = 0"
  by (simp add: quant_def)

lemma abs_lt_next_power: "x \<noteq> 0 \<Longrightarrow> \<bar>x\<bar> < 2 powi (expo x + 1)"
proof -
  assume nz: "x \<noteq> 0"
  then have pos: "0 < \<bar>x\<bar>" by simp
  have "(2::real) powi (\<lfloor>log 2 \<bar>x\<bar>\<rfloor> + 1) \<le> 2 powi (expo x + 1)"
    using nz by (intro power_int_increasing) (simp_all add: expo_def)
  with floor_log2_upper [OF pos] show ?thesis
    by linarith
qed

lemma abs_ge_power: "- 1022 < expo x \<Longrightarrow> 2 powi (expo x) \<le> \<bar>x\<bar>"
proof -
  assume a: "- 1022 < expo x"
  then have "x \<noteq> 0"
    by (auto simp: expo_def)
  with a have e: "expo x = \<lfloor>log 2 \<bar>x\<bar>\<rfloor>"
    by (simp add: expo_def max_def split: if_splits)
  from \<open>x \<noteq> 0\<close> have "0 < \<bar>x\<bar>" by simp
  from floor_log2_lower [OF this] e show ?thesis
    by simp
qed

lemma quant_nonneg: "0 \<le> x \<Longrightarrow> 0 \<le> quant x"
proof -
  assume "0 \<le> x"
  then have "0 \<le> x / ulp x"
    by (simp add: less_imp_le)
  from rte_mono [OF this] show ?thesis
    by (simp add: quant_def less_imp_le)
qed

lemma quant_le_next_power:
  assumes "0 < x"
  shows "quant x \<le> 2 powi (expo x + 1)"
proof -
  have "x / ulp x \<le> 2 powi (expo x + 1) / ulp x"
    using abs_lt_next_power [of x] assms by (simp add: divide_right_mono less_imp_le)
  also have "2 powi (expo x + 1) / ulp x = (2::real) powi (expo x + 1 - (expo x - 52))"
    unfolding ulp_def by (rule power_int_diff [symmetric]) simp
  also have "\<dots> = of_int (2 ^ 53)"
    by simp
  finally have "rte (x / ulp x) \<le> rte (of_int (2 ^ 53))"
    by (rule rte_mono)
  then have "rte (x / ulp x) \<le> 2 ^ 53"
    by (simp only: rte_of_int)
  then have "of_int (rte (x / ulp x)) * ulp x \<le> of_int (2 ^ 53) * ulp x"
    by (intro mult_right_mono) (simp_all add: less_imp_le)
  also have "of_int (2 ^ 53) * ulp x = 2 powi 53 * 2 powi (expo x - 52)"
    by (simp add: ulp_def)
  also have "\<dots> = 2 powi (53 + (expo x - 52))"
    by (rule power_int_add [symmetric]) simp
  also have "\<dots> = 2 powi (expo x + 1)"
    by (simp add: algebra_simps)
  finally show ?thesis
    unfolding quant_def .
qed

lemma quant_ge_power:
  assumes "0 < x" and "- 1022 < expo x"
  shows "2 powi (expo x) \<le> quant x"
proof -
  have "2 powi (expo x) / ulp x \<le> x / ulp x"
    using abs_ge_power [OF assms(2)] assms(1) by (simp add: divide_right_mono less_imp_le)
  moreover have "2 powi (expo x) / ulp x = (2::real) powi (expo x - (expo x - 52))"
    unfolding ulp_def by (rule power_int_diff [symmetric]) simp
  moreover have "(2::real) powi (expo x - (expo x - 52)) = of_int (2 ^ 52)"
    by simp
  ultimately have "rte (of_int (2 ^ 52)) \<le> rte (x / ulp x)"
    by (intro rte_mono) simp
  then have le: "2 ^ 52 \<le> rte (x / ulp x)"
    by (simp only: rte_of_int)
  have "(2::real) powi (expo x) = 2 powi (52 + (expo x - 52))"
    by simp
  also have "\<dots> = 2 powi 52 * 2 powi (expo x - 52)"
    by (rule power_int_add) simp
  also have "\<dots> = of_int (2 ^ 52) * ulp x"
    by (simp add: ulp_def)
  also have "\<dots> \<le> of_int (rte (x / ulp x)) * ulp x"
    using le by (intro mult_right_mono) (simp_all add: less_imp_le)
  finally show ?thesis
    unfolding quant_def .
qed

lemma quant_mono:
  assumes "0 \<le> x" and "x \<le> y"
  shows "quant x \<le> quant y"
proof (cases "x = 0")
  case True
  with assms quant_nonneg [of y] show ?thesis
    by simp
next
  case False
  with assms have pos: "0 < x" "0 < y"
    by simp_all
  show ?thesis
  proof (cases "expo x = expo y")
    case True
    then have u: "ulp x = ulp y"
      by (simp add: ulp_def)
    have "x / ulp y \<le> y / ulp y"
      using assms(2) by (simp add: divide_right_mono less_imp_le)
    from rte_mono [OF this] have "of_int (rte (x / ulp y)) * ulp y \<le> of_int (rte (y / ulp y)) * ulp y"
      by (intro mult_right_mono) (simp_all add: less_imp_le)
    with u show ?thesis
      by (simp add: quant_def)
  next
    case False
    with expo_mono [OF pos(1) assms(2)] have lt: "expo x < expo y"
      by simp
    then have "- 1022 < expo y"
      using pos(1) by (simp add: expo_def split: if_splits)
    from quant_ge_power [OF pos(2) this] have "2 powi (expo y) \<le> quant y" .
    moreover have "(2::real) powi (expo x + 1) \<le> 2 powi (expo y)"
      using lt by (intro power_int_increasing) simp_all
    ultimately show ?thesis
      using quant_le_next_power [OF pos(1)] by linarith
  qed
qed

lemma rte_quot_bound:
  assumes "x \<noteq> 0"
  shows "\<bar>rte (x / ulp x)\<bar> \<le> 2 ^ 53"
proof -
  have "\<bar>x / ulp x\<bar> = \<bar>x\<bar> / ulp x"
    by (simp add: abs_divide less_imp_le)
  also have "\<dots> \<le> 2 powi (expo x + 1) / ulp x"
    using abs_lt_next_power [OF assms] by (simp add: divide_right_mono less_imp_le)
  also have "2 powi (expo x + 1) / ulp x = (2::real) powi (expo x + 1 - (expo x - 52))"
    unfolding ulp_def by (rule power_int_diff [symmetric]) simp
  also have "\<dots> = of_int (2 ^ 53)"
    by simp
  finally show ?thesis
    by (rule rte_abs_le)
qed

lemma quant_abs_le_next_power:
  assumes "x \<noteq> 0"
  shows "\<bar>quant x\<bar> \<le> 2 powi (expo x + 1)"
proof -
  from rte_quot_bound [OF assms]
  have "\<bar>of_int (rte (x / ulp x)) :: real\<bar> \<le> of_int (2 ^ 53)"
    by (simp only: flip: of_int_abs)
  then have "\<bar>of_int (rte (x / ulp x))\<bar> * ulp x \<le> of_int (2 ^ 53) * ulp x"
    by (intro mult_right_mono) (simp_all add: less_imp_le)
  also have "of_int (2 ^ 53) * ulp x = 2 powi 53 * 2 powi (expo x - 52)"
    by (simp add: ulp_def)
  also have "\<dots> = 2 powi (53 + (expo x - 52))"
    by (rule power_int_add [symmetric]) simp
  also have "\<dots> = 2 powi (expo x + 1)"
    by (simp add: algebra_simps)
  finally show ?thesis
    by (simp add: quant_def abs_mult less_imp_le)
qed

lemma quant_repr:
  assumes "\<bar>k\<bar> < 2 ^ 53" and "- 1074 \<le> j"
  shows "quant (of_int k * 2 powi j) = of_int k * 2 powi j"
proof (cases "k = 0")
  case True
  then show ?thesis by simp
next
  case False
  define x :: real where "x = of_int k * 2 powi j"
  have nz: "x \<noteq> 0"
    using False by (simp add: x_def)
  have "real_of_int \<bar>k\<bar> < real_of_int (2 ^ 53)"
    using assms(1) by (simp only: of_int_less_iff)
  then have "real_of_int \<bar>k\<bar> * 2 powi j < real_of_int (2 ^ 53) * 2 powi j"
    by (intro mult_strict_right_mono) simp_all
  also have "real_of_int (2 ^ 53) * 2 powi j = 2 powi 53 * 2 powi j"
    by simp
  also have "\<dots> = 2 powi (53 + j)"
    by (rule power_int_add [symmetric]) simp
  finally have ub: "\<bar>x\<bar> < 2 powi (53 + j)"
    by (simp add: x_def abs_mult)
  have fl: "\<lfloor>log 2 \<bar>x\<bar>\<rfloor> \<le> 52 + j"
  proof (rule ccontr)
    assume "\<not> \<lfloor>log 2 \<bar>x\<bar>\<rfloor> \<le> 52 + j"
    then have "(2::real) powi (53 + j) \<le> 2 powi \<lfloor>log 2 \<bar>x\<bar>\<rfloor>"
      by (intro power_int_increasing) simp_all
    moreover have "2 powi \<lfloor>log 2 \<bar>x\<bar>\<rfloor> \<le> \<bar>x\<bar>"
      using nz by (intro floor_log2_lower) simp
    ultimately show False
      using ub by linarith
  qed
  with assms(2) nz have E: "expo x - 52 \<le> j"
    by (simp add: expo_def)
  define n where "n = nat (j - (expo x - 52))"
  have j: "j = (expo x - 52) + int n"
    using E by (simp add: n_def)
  have "(2::real) powi j = 2 powi (expo x - 52) * 2 powi (int n)"
    by (subst j, rule power_int_add) simp
  then have pj: "(2::real) powi j = ulp x * 2 ^ n"
    by (simp add: ulp_def)
  have "x = of_int k * 2 powi j"
    by (rule x_def)
  also have "\<dots> = of_int k * (ulp x * 2 ^ n)"
    by (simp only: pj)
  also have "\<dots> = of_int (k * 2 ^ n) * ulp x"
    by simp
  finally have xeq: "x = of_int (k * 2 ^ n) * ulp x" .
  then have "x / ulp x = of_int (k * 2 ^ n) * ulp x / ulp x"
    by (rule arg_cong [where f = "\<lambda>t. t / ulp x"])
  also have "\<dots> = of_int (k * 2 ^ n)"
    using ulp_nz [of x] by simp
  finally have "rte (x / ulp x) = k * 2 ^ n"
    by (simp only: rte_of_int)
  then have "quant x = of_int (k * 2 ^ n) * ulp x"
    by (simp add: quant_def)
  with xeq have "quant x = x"
    by simp
  then show ?thesis
    by (simp add: x_def)
qed

lemma quant_idem: "quant (quant x) = quant x"
proof (cases "x = 0")
  case True
  then show ?thesis by simp
next
  case False
  define k where "k = rte (x / ulp x)"
  define j where "j = expo x - 52"
  have q: "quant x = of_int k * 2 powi j"
    by (simp add: quant_def k_def j_def ulp_def)
  have j: "- 1074 \<le> j"
    using expo_ge [of x] by (simp add: j_def)
  have k: "\<bar>k\<bar> \<le> 2 ^ 53"
    unfolding k_def using False by (rule rte_quot_bound)
  show ?thesis
  proof (cases "\<bar>k\<bar> < 2 ^ 53")
    case True
    from quant_repr [OF this j] show ?thesis
      by (simp add: q)
  next
    case False
    with k have "\<bar>k\<bar> = 2 ^ 53"
      by simp
    then obtain k' where k': "k = 2 * k'" "\<bar>k'\<bar> < 2 ^ 53"
      by (cases "0 \<le> k") (auto intro: that [of "2 ^ 52"] that [of "- (2 ^ 52)"])
    have "(2::real) powi (j + 1) = 2 powi j * 2"
      by (rule power_int_add_1) simp
    then have "of_int k * (2::real) powi j = of_int k' * 2 powi (j + 1)"
      by (simp add: k')
    moreover have "quant (of_int k' * 2 powi (j + 1)) = of_int k' * 2 powi (j + 1)"
      using k'(2) j by (intro quant_repr) simp_all
    ultimately show ?thesis
      by (simp add: q)
  qed
qed

lemma max_double_ge: "2 powi 1023 \<le> max_double"
  by (simp add: max_double_def)

lemma max_double_ge53: "2 ^ 53 \<le> max_double"
  by (simp add: max_double_def)

lemma rnd_0 [simp]: "rnd 0 = Fin 0"
  by (simp add: rnd_def max_double_def)

lemma rnd_FinD: "rnd B = Fin B' \<Longrightarrow> quant B = B' \<and> \<bar>B'\<bar> \<le> max_double"
  by (auto simp: rnd_def Let_def split: if_splits)

lemma rnd_eval:
  assumes "2 powi e \<le> \<bar>x\<bar>" and "\<bar>x\<bar> < 2 powi (e + 1)" and "- 1022 \<le> e" and "e \<le> 1022"
  shows "rnd x = Fin (of_int (rte (x / 2 powi (e - 52))) * 2 powi (e - 52))"
proof -
  have e: "expo x = e"
    using assms(1-3) by (rule expo_eqI)
  have "(0::real) < 2 powi e"
    by simp
  with assms(1) have "0 < \<bar>x\<bar>"
    by linarith
  then have nz: "x \<noteq> 0"
    by simp
  have "(2::real) powi (e + 1) \<le> 2 powi 1023"
    using assms(4) by (intro power_int_increasing) simp_all
  with quant_abs_le_next_power [OF nz] e max_double_ge have "\<bar>quant x\<bar> \<le> max_double"
    by simp
  then show ?thesis
    by (simp add: rnd_def Let_def quant_def ulp_def e)
qed

lemma rnd_repr:
  assumes "\<bar>k\<bar> < 2 ^ 53" and "- 1074 \<le> j" and "\<bar>of_int k * 2 powi j\<bar> \<le> max_double"
  shows "rnd (of_int k * 2 powi j) = Fin (of_int k * 2 powi j)"
  using assms(3) by (simp add: rnd_def Let_def quant_repr [OF assms(1,2)])

lemma rnd_of_nat:
  assumes "n \<le> 2 ^ 53"
  shows "rnd (of_nat n) = Fin (of_nat n)"
proof (cases "n = 2 ^ 53")
  case True
  have "rnd (of_int (2 ^ 52) * 2 powi 1) = Fin (of_int (2 ^ 52) * 2 powi 1)"
    by (rule rnd_repr) (simp_all add: max_double_def)
  with True show ?thesis
    by simp
next
  case False
  with assms have lt: "n < 2 ^ 53"
    by simp
  have "rnd (of_int (int n) * 2 powi 0) = Fin (of_int (int n) * 2 powi 0)"
  proof (rule rnd_repr)
    show "\<bar>int n\<bar> < 2 ^ 53"
      using lt by simp
    show "- 1074 \<le> (0::int)"
      by simp
    have "real n \<le> 2 ^ 53"
      using assms by (metis of_nat_le_iff of_nat_numeral of_nat_power)
    with max_double_ge53 show "\<bar>real_of_int (int n) * 2 powi 0\<bar> \<le> max_double"
      by simp
  qed
  then show ?thesis
    by simp
qed

lemma rnd_saturate: "rnd (2 ^ 53 + 1) = Fin (2 ^ 53)"
  by (subst rnd_eval [where e = 53]) (simp_all add: rte_def Let_def)

lemma rnd_1: "rnd 1 = Fin 1"
  by (subst rnd_eval [where e = 0]) (simp_all add: rte_def Let_def)

lemma rnd_2: "rnd 2 = Fin 2"
  by (subst rnd_eval [where e = 1]) (simp_all add: rte_def Let_def)

lemma rnd_minus_one: "rnd (- 1) = Fin (- 1)"
  by (subst rnd_eval [where e = 0]) (simp_all add: rte_def Let_def)

lemma lit_half: "lit (1 / 2) = Fin (1 / 2)"
  unfolding lit_def by (subst rnd_eval [where e = "- 1"]) (simp_all add: rte_def Let_def)

lemma rnd_between:
  assumes "0 \<le> x" and "x \<le> B" and "rnd B = Fin B'"
  shows "between0 B' (rnd x)"
proof -
  from rnd_FinD [OF assms(3)] have q: "quant B = B'" "\<bar>B'\<bar> \<le> max_double"
    by simp_all
  have lo: "0 \<le> quant x"
    using assms(1) by (rule quant_nonneg)
  have hi: "quant x \<le> B'"
    using quant_mono [OF assms(1,2)] q(1) by simp
  from lo hi q(2) have "\<bar>quant x\<bar> \<le> max_double"
    by linarith
  with lo hi show ?thesis
    by (simp add: rnd_def Let_def between0_def)
qed

lemma rnd_finite_unit:
  assumes "\<bar>x\<bar> \<le> 1"
  shows "\<exists>v. rnd x = Fin v \<and> \<bar>v\<bar> \<le> 2"
proof (cases "x = 0")
  case True
  then show ?thesis by simp
next
  case False
  have "(2::real) powi (expo x + 1) \<le> 2 powi 1"
    using expo_le_0 [OF assms] by (intro power_int_increasing) simp_all
  with quant_abs_le_next_power [OF False] have q: "\<bar>quant x\<bar> \<le> 2"
    by simp
  moreover have "(2::real) \<le> max_double"
    by (simp add: max_double_def)
  ultimately show ?thesis
    by (simp add: rnd_def Let_def)
qed

lemma rnd_positive:
  assumes "2 powi j \<le> x" and "- 1074 \<le> j"
  shows "rnd x \<noteq> Fin 0"
proof -
  have "quant (of_int 1 * 2 powi j) = of_int 1 * 2 powi j"
    using assms(2) by (intro quant_repr) simp_all
  then have "quant (2 powi j) = 2 powi j"
    by simp
  moreover have "quant (2 powi j) \<le> quant x"
    using assms(1) by (intro quant_mono) simp_all
  moreover have "(0::real) < 2 powi j"
    by simp
  ultimately have "0 < quant x"
    by linarith
  then show ?thesis
    by (auto simp: rnd_def Let_def)
qed

lemma rnd_idem:
  assumes "rnd x = Fin r"
  shows "rnd r = Fin r"
proof -
  from rnd_FinD [OF assms] have "quant x = r" "\<bar>r\<bar> \<le> max_double"
    by simp_all
  with quant_idem [of x] show ?thesis
    by (simp add: rnd_def Let_def)
qed

lemma fadd_repr: "fadd x y = Fin r \<Longrightarrow> rnd r = Fin r"
  by (cases x; cases y) (auto intro: rnd_idem)

lemma fmul_repr: "fmul x y = Fin r \<Longrightarrow> rnd r = Fin r"
  by (cases x; cases y) (auto intro: rnd_idem split: if_splits)

lemma flt_NaN_right [simp]: "flt x NaN = False"
  by (cases x) simp_all

lemma fadd_NaN_right [simp]: "fadd x NaN = NaN"
  by (cases x) simp_all

lemma flt_antimono_right: "\<not> flt m t1 \<Longrightarrow> flt t2 t1 \<Longrightarrow> \<not> flt m t2"
  by (cases m; cases t1; cases t2) auto

section \<open>The sampling loops as folds over the sampled offsets\<close>

lemma steps_empty: "n \<le> a \<Longrightarrow> steps a d n = []"
  by (auto simp: steps_def filter_empty_conv)

lemma steps_Suc:
  "steps a d (Suc n) = steps a d n @ (if a \<le> n \<and> (n - a) mod d = 0 then [n] else [])"
  by (simp add: steps_def)

lemma steps_shift:
  fixes a d n :: nat
  assumes "0 < d" and "a < n"
  shows "(a \<le> n \<and> (n - a) mod d = 0) = (a + d \<le> n \<and> (n - (a + d)) mod d = 0)"
proof
  assume l: "a \<le> n \<and> (n - a) mod d = 0"
  then have "(n - a) mod d = 0"
    by simp
  then have "d dvd n - a"
    by (rule mod_0_imp_dvd)
  moreover have "0 < n - a"
    using assms(2) by simp
  ultimately have "d \<le> n - a"
    by (simp add: dvd_imp_le)
  with assms have le: "a + d \<le> n"
    by linarith
  from \<open>d dvd n - a\<close> have "d dvd (n - a) - d"
    by (rule dvd_diff_nat) simp
  then have "(n - (a + d)) mod d = 0"
    by simp
  with le show "a + d \<le> n \<and> (n - (a + d)) mod d = 0"
    by simp
next
  assume r: "a + d \<le> n \<and> (n - (a + d)) mod d = 0"
  then have eq: "n - a = (n - (a + d)) + d"
    by simp
  from r have "d dvd n - (a + d)"
    by (simp add: mod_eq_0_iff_dvd)
  then have "d dvd (n - (a + d)) + d"
    by simp
  with eq have "(n - a) mod d = 0"
    by simp
  with r show "a \<le> n \<and> (n - a) mod d = 0"
    by simp
qed

lemma steps_rec:
  assumes "0 < d"
  shows "steps a d n = (if a < n then a # steps (a + d) d n else [])"
proof (induction n)
  case 0
  then show ?case by (simp add: steps_def)
next
  case (Suc n)
  consider "a < n" | "a = n" | "n < a" by linarith
  then show ?case
  proof cases
    case 1
    with Suc steps_shift [OF assms 1] show ?thesis
      by (simp add: steps_Suc)
  next
    case 2
    moreover from assms have "Suc n \<le> n + d"
      by simp
    ultimately have "steps a d n = []" "steps (a + d) d (Suc n) = []"
      by (simp_all only: steps_empty order_refl)
    with 2 show ?thesis
      by (simp add: steps_Suc)
  next
    case 3
    then show ?thesis
      by (simp add: steps_empty)
  qed
qed

lemma set_steps: "x \<in> set (steps a d n) \<Longrightarrow> x < n"
  by (simp add: steps_def)

lemma sample_row_fold:
  "sample_row pixels w rowstride channels y x s =
     foldl (\<lambda>s' i. sample_pixel pixels i s') s
       (map (\<lambda>x'. y * rowstride + x' * channels) (steps x 4 w))"
proof (induction pixels w rowstride channels y x s rule: sample_row.induct)
  case (1 pixels w rowstride channels y x s)
  show ?case
  proof (cases "x < w")
    case True
    with 1 show ?thesis
      by (subst sample_row.simps, subst steps_rec) simp_all
  next
    case False
    then show ?thesis
      by (subst sample_row.simps, subst steps_rec) simp_all
  qed
qed

lemma sample_rows_fold:
  "sample_rows pixels w h rowstride channels y s =
     foldl (\<lambda>s' y'. sample_row pixels w rowstride channels y' (xOffset y') s') s (steps y 2 h)"
proof (induction pixels w h rowstride channels y s rule: sample_rows.induct)
  case (1 pixels w h rowstride channels y s)
  show ?case
  proof (cases "y < h")
    case True
    with 1 show ?thesis
      by (subst sample_rows.simps, subst steps_rec) simp_all
  next
    case False
    then show ?thesis
      by (subst sample_rows.simps, subst steps_rec) simp_all
  qed
qed

lemma foldl_concat_map:
  "foldl f s (concat (map g ys)) = foldl (\<lambda>s' y. foldl f s' (g y)) s ys"
  by (induction ys arbitrary: s) simp_all

lemma sample_rows_offsets:
  "sample_rows pixels w h rowstride channels 0 s =
     foldl (\<lambda>s' i. sample_pixel pixels i s') s (spec_offsets w h rowstride channels)"
  by (simp add: sample_rows_fold sample_row_fold spec_offsets_def spec_rows_def spec_cols_def
      xOffset_def foldl_concat_map)

lemma sample_rows_none: "sample_rows pixels w 0 rowstride channels y s = s"
  by (subst sample_rows.simps) simp

lemma luminosity_spec:
  "luminosity_of (channel pixels i) (channel pixels (Suc i)) (channel pixels (Suc (Suc i))) =
     spec_luminosity pixels i"
  by (simp add: luminosity_of_def channel_def spec_luminosity_def)

lemma sample_pixel_total:
  "totalLuminosity (sample_pixel pixels i s) =
     fadd (totalLuminosity s) (spec_luminosity pixels i)"
  by (simp add: sample_pixel_def Let_def luminosity_spec)

lemma sample_pixel_squares:
  "luminositySquaredSum (sample_pixel pixels i s) =
     fadd (luminositySquaredSum s)
          (fmul (spec_luminosity pixels i) (spec_luminosity pixels i))"
  by (simp add: sample_pixel_def Let_def luminosity_spec)

lemma sample_pixel_count:
  "sampleCount_acc (sample_pixel pixels i s) = Suc (sampleCount_acc s)"
  by (simp add: sample_pixel_def Let_def)

lemma sample_pixel_min:
  "minLuminosity_acc (sample_pixel pixels i s) =
     (if flt (spec_luminosity pixels i) (minLuminosity_acc s)
      then spec_luminosity pixels i else minLuminosity_acc s)"
  by (simp add: sample_pixel_def Let_def luminosity_spec)

lemma sample_pixel_max:
  "maxLuminosity_acc (sample_pixel pixels i s) =
     (if fgt (spec_luminosity pixels i) (maxLuminosity_acc s)
      then spec_luminosity pixels i else maxLuminosity_acc s)"
  by (simp add: sample_pixel_def Let_def luminosity_spec)

lemma fold_total:
  "totalLuminosity (foldl (\<lambda>s' i. sample_pixel pixels i s') s offs) =
     foldl fadd (totalLuminosity s) (map (spec_luminosity pixels) offs)"
  by (induction offs arbitrary: s) (simp_all add: sample_pixel_total)

lemma fold_squares:
  "luminositySquaredSum (foldl (\<lambda>s' i. sample_pixel pixels i s') s offs) =
     foldl fadd (luminositySquaredSum s)
       (map (\<lambda>l. fmul l l) (map (spec_luminosity pixels) offs))"
  by (induction offs arbitrary: s) (simp_all add: sample_pixel_squares)

lemma fold_count:
  "sampleCount_acc (foldl (\<lambda>s' i. sample_pixel pixels i s') s offs) =
     sampleCount_acc s + length offs"
  by (induction offs arbitrary: s) (simp_all add: sample_pixel_count)

lemma analyzePixels_count:
  "sampleCount (analyzePixels pixels w h rowstride channels) =
     length (spec_offsets w h rowstride channels)"
  by (simp add: analyzePixels_def Let_def sample_rows_offsets fold_count sampler_init_def)

lemma analyzePixels_mean:
  "meanLuminance (analyzePixels pixels w h rowstride channels) =
     spec_mean (spec_luminosities pixels w h rowstride channels)"
  by (simp add: analyzePixels_def Let_def sample_rows_offsets fold_count fold_total
      sampler_init_def spec_mean_def spec_sum_def spec_luminosities_def)

lemma analyzePixels_std:
  "luminanceStd (analyzePixels pixels w h rowstride channels) =
     spec_std (spec_luminosities pixels w h rowstride channels)"
  by (simp add: analyzePixels_def Let_def sample_rows_offsets fold_count fold_total
      fold_squares sampler_init_def spec_std_def spec_mean_def spec_sum_def
      spec_luminosities_def)

lemma analyzePixels_min:
  "minLuminosity (analyzePixels pixels w h rowstride channels) =
     minLuminosity_acc (foldl (\<lambda>s' i. sample_pixel pixels i s') sampler_init
       (spec_offsets w h rowstride channels))"
  by (simp add: analyzePixels_def Let_def sample_rows_offsets)

lemma spec_offsets_first:
  assumes "1 \<le> w" and "1 \<le> h"
  shows "\<exists>rest. spec_offsets w h rowstride channels = 0 # rest"
proof -
  from assms have r: "steps 0 2 h = 0 # steps (0 + 2) 2 h"
    by (subst steps_rec) simp_all
  from assms have c: "steps 0 4 w = 0 # steps (0 + 4) 4 w"
    by (subst steps_rec) simp_all
  show ?thesis
    unfolding spec_offsets_def spec_rows_def spec_cols_def r
    by (simp add: c)
qed

lemma pixel_at_drop: "pixel_at (drop n pixels) i = pixel_at pixels (n + i)"
  by (auto simp: pixel_at_def)

section \<open>Bounds on the statistics\<close>

lemma between0_iff: "between0 B x \<longleftrightarrow> (\<exists>r. x = Fin r \<and> 0 \<le> r \<and> r \<le> B)"
  by (cases x) (simp_all add: between0_def)

lemma in_unit_iff: "in_unit x \<longleftrightarrow> between0 1 x"
  by (cases x) (simp_all add: in_unit_def between0_def)

lemma between0_mono: "between0 B x \<Longrightarrow> B \<le> C \<Longrightarrow> between0 C x"
  by (auto simp: between0_iff)

lemma unat_byte_le: "unat (b :: byte) \<le> 255"
  using unsigned_less [of b, where 'a = nat] by simp

lemma channel_in_unit:
  assumes "i < length pixels"
  shows "between0 1 (channel pixels i)"
proof -
  define v where "v = real (unat (pixels ! i))"
  have "v \<le> 255"
    using unat_byte_le [of "pixels ! i"] unfolding v_def by linarith
  moreover have "0 \<le> v"
    unfolding v_def by (rule of_nat_0_le_iff)
  ultimately have "between0 1 (rnd (v / 255))"
    by (intro rnd_between [OF _ _ rnd_1]) simp_all
  moreover have "channel pixels i = rnd (v / 255)"
    using assms unfolding channel_def pixel_at_def v_def by simp
  ultimately show ?thesis
    by simp
qed

lemma fmul_between:
  assumes "rnd (A * B) = Fin C" and "between0 A x" and "between0 B y"
  shows "between0 C (fmul x y)"
proof -
  from assms(2,3) obtain a b where x: "x = Fin a" "0 \<le> a" "a \<le> A"
    and y: "y = Fin b" "0 \<le> b" "b \<le> B"
    by (auto simp: between0_iff)
  have "a * b \<le> A * B"
    using x y by (intro mult_mono) simp_all
  moreover have "0 \<le> a * b"
    using x y by simp
  ultimately have "between0 C (rnd (a * b))"
    using assms(1) by (intro rnd_between)
  with x y show ?thesis
    by simp
qed

lemma fadd_between:
  assumes "rnd (A + B) = Fin C" and "between0 A x" and "between0 B y"
  shows "between0 C (fadd x y)"
proof -
  from assms(2,3) obtain a b where x: "x = Fin a" "0 \<le> a" "a \<le> A"
    and y: "y = Fin b" "0 \<le> b" "b \<le> B"
    by (auto simp: between0_iff)
  have "between0 C (rnd (a + b))"
    using x y assms(1) by (intro rnd_between) simp_all
  with x y show ?thesis
    by simp
qed

lemma lit_299: "lit 0.299 = Fin c299"
  unfolding lit_def c299_def by (subst rnd_eval [where e = "- 2"]) (simp_all add: rte_def Let_def)

lemma lit_587: "lit 0.587 = Fin c587"
  unfolding lit_def c587_def by (subst rnd_eval [where e = "- 1"]) (simp_all add: rte_def Let_def)

lemma lit_114: "lit 0.114 = Fin c114"
  unfolding lit_def c114_def by (subst rnd_eval [where e = "- 4"]) (simp_all add: rte_def Let_def)

lemma rnd_c299: "rnd (c299 * 1) = Fin c299"
  unfolding c299_def by (subst rnd_eval [where e = "- 2"]) (simp_all add: rte_def Let_def)

lemma rnd_c587: "rnd (c587 * 1) = Fin c587"
  unfolding c587_def by (subst rnd_eval [where e = "- 1"]) (simp_all add: rte_def Let_def)

lemma rnd_c114: "rnd (c114 * 1) = Fin c114"
  unfolding c114_def by (subst rnd_eval [where e = "- 4"]) (simp_all add: rte_def Let_def)

lemma rnd_c886: "rnd (c299 + c587) = Fin c886"
  unfolding c299_def c587_def c886_def
  by (subst rnd_eval [where e = "- 1"]) (simp_all add: rte_def Let_def)

lemma rnd_c_white: "rnd (c886 + c114) = Fin c_white"
  unfolding c886_def c114_def c_white_def
  by (subst rnd_eval [where e = "- 1"]) (simp_all add: rte_def Let_def)

lemma c_white_less_1: "c_white < 1"
  by (simp add: c_white_def)

lemma c_nonneg: "0 \<le> c299" "0 \<le> c587" "0 \<le> c114"
  by (simp_all add: c299_def c587_def c114_def)

lemma luminosity_of_between:
  assumes "between0 1 r" and "between0 1 g" and "between0 1 b"
  shows "between0 c_white (luminosity_of r g b)"
proof -
  have r: "between0 c299 (fmul (Fin c299) r)"
    using c_nonneg by (intro fmul_between [OF rnd_c299 _ assms(1)]) (simp add: between0_def)
  have g: "between0 c587 (fmul (Fin c587) g)"
    using c_nonneg by (intro fmul_between [OF rnd_c587 _ assms(2)]) (simp add: between0_def)
  have b: "between0 c114 (fmul (Fin c114) b)"
    using c_nonneg by (intro fmul_between [OF rnd_c114 _ assms(3)]) (simp add: between0_def)
  have "between0 c_white
          (fadd (fadd (fmul (Fin c299) r) (fmul (Fin c587) g)) (fmul (Fin c114) b))"
    by (intro fadd_between [OF rnd_c_white] fadd_between [OF rnd_c886] r g b)
  then show ?thesis
    unfolding luminosity_of_def lit_299 lit_587 lit_114 .
qed

lemma spec_luminosity_between:
  assumes "i + 2 < length pixels"
  shows "between0 c_white (spec_luminosity pixels i)"
proof -
  have "between0 c_white
          (luminosity_of (channel pixels i) (channel pixels (Suc i)) (channel pixels (Suc (Suc i))))"
    using assms by (intro luminosity_of_between channel_in_unit) simp_all
  then show ?thesis
    by (simp only: luminosity_spec)
qed

lemma spec_luminosity_unit:
  "i + 2 < length pixels \<Longrightarrow> between0 1 (spec_luminosity pixels i)"
  using spec_luminosity_between [of i pixels] c_white_less_1
  by (auto intro: between0_mono)

lemma square_unit:
  assumes "between0 1 l"
  shows "between0 1 (fmul l l)"
  using assms by (intro fmul_between [where A = 1 and B = 1]) (simp_all add: rnd_1)

lemma cap53_step: "rnd (cap53 n + 1) = Fin (cap53 (Suc n))"
proof (cases "n < 2 ^ 53")
  case True
  then have "cap53 n = real n" "cap53 (Suc n) = real (Suc n)"
    by (simp_all add: cap53_def)
  moreover have "rnd (real (Suc n)) = Fin (real (Suc n))"
    using True by (intro rnd_of_nat) simp
  ultimately show ?thesis
    by (simp add: add.commute)
next
  case False
  then have "cap53 n = 2 ^ 53" "cap53 (Suc n) = 2 ^ 53"
    by (simp_all add: cap53_def)
  then show ?thesis
    by (simp only: rnd_saturate)
qed

lemma fold_sum_cap:
  assumes "\<forall>l\<in>set ls. between0 1 l" and "between0 (cap53 n) s"
  shows "between0 (cap53 (n + length ls)) (foldl fadd s ls)"
  using assms
proof (induction ls arbitrary: s n)
  case Nil
  then show ?case by simp
next
  case (Cons l ls)
  have "between0 (cap53 (Suc n)) (fadd s l)"
    using Cons.prems by (intro fadd_between [OF cap53_step]) simp_all
  from Cons.IH [OF _ this] Cons.prems(1) show ?case
    by simp
qed

lemma cap53_le: "cap53 n \<le> real n"
  by (simp add: cap53_def)

lemma mean_unit:
  assumes "between0 (cap53 n) t" and "1 \<le> n"
  shows "between0 1 (fdiv t (Fin (real n)))"
proof -
  from assms(1) obtain a where t: "t = Fin a" "0 \<le> a" "a \<le> cap53 n"
    by (auto simp: between0_iff)
  with cap53_le [of n] have "a \<le> real n"
    by linarith
  with assms(2) have "a / real n \<le> 1"
    by (simp add: divide_le_eq)
  moreover have "0 \<le> a / real n"
    using t by simp
  ultimately have "between0 1 (rnd (a / real n))"
    by (intro rnd_between [OF _ _ rnd_1])
  with t assms(2) show ?thesis
    by simp
qed

lemma sample_pixel_minmax:
  assumes "between0 1 (minLuminosity_acc s)" and "between0 1 (maxLuminosity_acc s)"
    and "between0 1 (spec_luminosity pixels i)"
  shows "between0 1 (minLuminosity_acc (sample_pixel pixels i s))"
    and "between0 1 (maxLuminosity_acc (sample_pixel pixels i s))"
    and "fle (minLuminosity_acc (sample_pixel pixels i s))
             (maxLuminosity_acc (sample_pixel pixels i s))"
proof -
  from assms obtain a b l where
    "minLuminosity_acc s = Fin a" "maxLuminosity_acc s = Fin b" "spec_luminosity pixels i = Fin l"
    "0 \<le> a" "a \<le> 1" "0 \<le> b" "b \<le> 1" "0 \<le> l" "l \<le> 1"
    by (auto simp: between0_iff)
  then show "between0 1 (minLuminosity_acc (sample_pixel pixels i s))"
    and "between0 1 (maxLuminosity_acc (sample_pixel pixels i s))"
    and "fle (minLuminosity_acc (sample_pixel pixels i s))
             (maxLuminosity_acc (sample_pixel pixels i s))"
    by (simp_all add: sample_pixel_min sample_pixel_max fgt_def between0_def)
qed

lemma fold_minmax:
  assumes "\<forall>i\<in>set offs. between0 1 (spec_luminosity pixels i)"
    and "between0 1 (minLuminosity_acc s)" and "between0 1 (maxLuminosity_acc s)"
  shows "between0 1 (minLuminosity_acc (foldl (\<lambda>s' i. sample_pixel pixels i s') s offs)) \<and>
         between0 1 (maxLuminosity_acc (foldl (\<lambda>s' i. sample_pixel pixels i s') s offs)) \<and>
         (offs \<noteq> [] \<longrightarrow>
            fle (minLuminosity_acc (foldl (\<lambda>s' i. sample_pixel pixels i s') s offs))
                (maxLuminosity_acc (foldl (\<lambda>s' i. sample_pixel pixels i s') s offs)))"
  using assms
proof (induction offs rule: rev_induct)
  case Nil
  then show ?case by simp
next
  case (snoc i offs)
  then have "between0 1 (minLuminosity_acc (foldl (\<lambda>s' i. sample_pixel pixels i s') s offs))"
    "between0 1 (maxLuminosity_acc (foldl (\<lambda>s' i. sample_pixel pixels i s') s offs))"
    "between0 1 (spec_luminosity pixels i)"
    by simp_all
  from sample_pixel_minmax [OF this] show ?case
    by simp
qed

lemma std_between:
  assumes "between0 1 q" and "between0 1 m"
  shows "between0 2 (fsqrt (fmax (Fin 0) (fsub q (fmul m m))))"
proof -
  from assms(1) obtain a where q: "q = Fin a" "0 \<le> a" "a \<le> 1"
    by (auto simp: between0_iff)
  from square_unit [OF assms(2)] obtain d where mm: "fmul m m = Fin d" "0 \<le> d" "d \<le> 1"
    by (auto simp: between0_iff)
  from q mm have "\<bar>a - d\<bar> \<le> 1"
    by simp
  from rnd_finite_unit [OF this] obtain v where v: "rnd (a - d) = Fin v" "\<bar>v\<bar> \<le> 2"
    by blast
  have "sqrt (max 0 v) \<le> sqrt 4"
    using v(2) by (intro real_sqrt_le_mono) simp
  then have "sqrt (max 0 v) \<le> 2"
    by simp
  moreover have "0 \<le> sqrt (max 0 v)"
    by simp
  ultimately have "between0 2 (rnd (sqrt (max 0 v)))"
    by (intro rnd_between [OF _ _ rnd_2])
  moreover have "fsqrt (fmax (Fin 0) (fsub q (fmul m m))) = rnd (sqrt (max 0 v))"
    by (simp add: q mm fsub_def v max_def)
  ultimately show ?thesis
    by simp
qed

lemma offsets_in_range:
  assumes "holds_region pixels w h rowstride channels"
    and "i \<in> set (spec_offsets w h rowstride channels)"
  shows "i + 2 < length pixels"
proof -
  from assms(2) obtain y x where yx: "y < h" "x < w" "i = y * rowstride + x * channels"
    by (auto simp: spec_offsets_def spec_rows_def spec_cols_def dest: set_steps)
  from assms(1) have ch: "3 \<le> channels"
    and len: "(h - 1) * rowstride + w * channels \<le> length pixels"
    by (simp_all add: holds_region_def)
  from yx(1) have "y * rowstride \<le> (h - 1) * rowstride"
    by (intro mult_le_mono1) simp
  moreover from yx(2) have "(x + 1) * channels \<le> w * channels"
    by (intro mult_le_mono1) simp
  then have "x * channels + channels \<le> w * channels"
    by simp
  ultimately show ?thesis
    using ch len yx(3) by linarith
qed

lemma luminosities_unit:
  assumes "holds_region pixels w h rowstride channels"
  shows "\<forall>i\<in>set (spec_offsets w h rowstride channels). between0 1 (spec_luminosity pixels i)"
  using offsets_in_range [OF assms] by (auto intro: spec_luminosity_unit)

lemma std_is_nonnegative:
  assumes "holds_region pixels w h rowstride channels"
    and "1 \<le> sampleCount (analyzePixels pixels w h rowstride channels)"
  shows "fle (Fin 0) (luminanceStd (analyzePixels pixels w h rowstride channels))"
proof -
  let ?offs = "spec_offsets w h rowstride channels"
  let ?ls = "spec_luminosities pixels w h rowstride channels"
  have unit: "\<forall>i\<in>set ?offs. between0 1 (spec_luminosity pixels i)"
    using assms(1) by (rule luminosities_unit)
  from assms(2) have n: "1 \<le> length ?ls"
    by (simp add: analyzePixels_count spec_luminosities_def)
  have "between0 (cap53 (0 + length ?ls)) (foldl fadd (Fin 0) ?ls)"
    using unit by (intro fold_sum_cap) (simp_all add: spec_luminosities_def between0_def cap53_def)
  then have m: "between0 1 (spec_mean ?ls)"
    using n by (simp add: spec_mean_def spec_sum_def mean_unit)
  have sq: "\<forall>l\<in>set (map (\<lambda>l. fmul l l) ?ls). between0 1 l"
    using unit by (auto simp: spec_luminosities_def intro: square_unit)
  have "between0 (cap53 0) (Fin 0)"
    by (simp add: between0_def cap53_def)
  with sq have "between0 (cap53 (0 + length (map (\<lambda>l. fmul l l) ?ls)))
          (foldl fadd (Fin 0) (map (\<lambda>l. fmul l l) ?ls))"
    by (rule fold_sum_cap)
  then have q: "between0 1 (fdiv (spec_sum (map (\<lambda>l. fmul l l) ?ls)) (Fin (real (length ?ls))))"
    using n by (simp add: spec_sum_def mean_unit)
  from std_between [OF q m] have "between0 2 (spec_std ?ls)"
    by (simp add: spec_std_def)
  then show ?thesis
    by (auto simp: analyzePixels_std between0_iff)
qed

lemma single_std:
  assumes "rnd L = Fin L" and "0 \<le> L" and "L \<le> 1"
  shows "spec_std [Fin L] = Fin 0"
proof -
  have "between0 1 (fmul (Fin L) (Fin L))"
    using assms(2,3) by (intro square_unit) (simp add: between0_def)
  then obtain S where S: "fmul (Fin L) (Fin L) = Fin S"
    by (auto simp: between0_iff)
  then have rS: "rnd S = Fin S"
    by (rule fmul_repr)
  from S have LL: "rnd (L * L) = Fin S"
    by simp
  show ?thesis
    by (simp add: spec_std_def spec_mean_def spec_sum_def fsub_def assms(1) LL rS)
qed

lemma analyzePixels_max:
  "maxLuminosity (analyzePixels pixels w h rowstride channels) =
     maxLuminosity_acc (foldl (\<lambda>s' i. sample_pixel pixels i s') sampler_init
       (spec_offsets w h rowstride channels))"
  by (simp add: analyzePixels_def Let_def sample_rows_offsets)

lemma single_luminosity:
  assumes "i + 2 < length pixels"
  shows "\<exists>L. spec_luminosity pixels i = Fin L \<and> rnd L = Fin L \<and> 0 \<le> L \<and> L < 1"
proof -
  from spec_luminosity_between [OF assms] obtain L where
    L: "spec_luminosity pixels i = Fin L" "0 \<le> L" "L \<le> c_white"
    by (auto simp: between0_iff)
  from L(1) have "rnd L = Fin L"
    unfolding spec_luminosity_def Let_def by (rule fadd_repr)
  with L c_white_less_1 show ?thesis
    by auto
qed

lemma gray_single_holds: "holds_region gray_row 1 1 27 3"
  by (simp add: holds_region_def gray_row_def)

lemma gray_single: "sampleCount (analyzePixels gray_row 1 1 27 3) = 1"
  by (simp add: analyzePixels_count spec_offsets_def spec_rows_def spec_cols_def steps_rec)

section \<open>The statistics of the gray row\<close>

text \<open>
  The arithmetic of \<open>#analyzePixels\<close> on the three sampled pixels of the gray row,
  one rounding per lemma.
\<close>

lemma g_channel: "fdiv (Fin 11) (Fin 255) = Fin (3108366801636107 / 2 ^ 56)"
  unfolding fdiv.simps
  by (subst rnd_eval [where e = "- 5"]) (simp_all add: rte_def Let_def)

lemma g_red: "fmul (Fin (5386305154335113 / 2 ^ 54)) (Fin (3108366801636107 / 2 ^ 56)) = Fin (232350418422299 / 2 ^ 54)"
  unfolding fmul.simps
  by (subst rnd_eval [where e = "- 7"]) (simp_all add: rte_def Let_def)

lemma g_green: "fmul (Fin (2643612981266481 / 2 ^ 52)) (Fin (3108366801636107 / 2 ^ 56)) = Fin (7298445250241579 / 2 ^ 58)"
  unfolding fmul.simps
  by (subst rnd_eval [where e = "- 6"]) (simp_all add: rte_def Let_def)

lemma g_blue: "fmul (Fin (8214565720323785 / 2 ^ 56)) (Fin (3108366801636107 / 2 ^ 56)) = Fin (5669661046184259 / 2 ^ 60)"
  unfolding fmul.simps
  by (subst rnd_eval [where e = "- 8"]) (simp_all add: rte_def Let_def)

lemma g_red_green: "fadd (Fin (232350418422299 / 2 ^ 54)) (Fin (7298445250241579 / 2 ^ 58)) = Fin (2754012986249591 / 2 ^ 56)"
  unfolding fadd.simps
  by (subst rnd_eval [where e = "- 5"]) (simp_all add: rte_def Let_def)

lemma g_lum: "fadd (Fin (2754012986249591 / 2 ^ 56)) (Fin (5669661046184259 / 2 ^ 60)) = Fin (3108366801636107 / 2 ^ 56)"
  unfolding fadd.simps
  by (subst rnd_eval [where e = "- 5"]) (simp_all add: rte_def Let_def)

lemma g_total1: "fadd (Fin 0) (Fin (3108366801636107 / 2 ^ 56)) = Fin (3108366801636107 / 2 ^ 56)"
  unfolding fadd.simps
  by (subst rnd_eval [where e = "- 5"]) (simp_all add: rte_def Let_def)

lemma g_total2: "fadd (Fin (3108366801636107 / 2 ^ 56)) (Fin (3108366801636107 / 2 ^ 56)) = Fin (3108366801636107 / 2 ^ 55)"
  unfolding fadd.simps
  by (subst rnd_eval [where e = "- 4"]) (simp_all add: rte_def Let_def)

lemma g_total3: "fadd (Fin (3108366801636107 / 2 ^ 55)) (Fin (3108366801636107 / 2 ^ 56)) = Fin (291409387653385 / 2 ^ 51)"
  unfolding fadd.simps
  by (subst rnd_eval [where e = "- 3"]) (simp_all add: rte_def Let_def)

lemma g_mean: "fdiv (Fin (291409387653385 / 2 ^ 51)) (Fin 3) = Fin (6216733603272213 / 2 ^ 57)"
  unfolding fdiv.simps
  by (subst rnd_eval [where e = "- 5"]) (simp_all add: rte_def Let_def)

lemma g_square: "fmul (Fin (3108366801636107 / 2 ^ 56)) (Fin (3108366801636107 / 2 ^ 56)) = Fin (2145382576815509 / 2 ^ 60)"
  unfolding fmul.simps
  by (subst rnd_eval [where e = "- 10"]) (simp_all add: rte_def Let_def)

lemma g_squares1: "fadd (Fin 0) (Fin (2145382576815509 / 2 ^ 60)) = Fin (2145382576815509 / 2 ^ 60)"
  unfolding fadd.simps
  by (subst rnd_eval [where e = "- 10"]) (simp_all add: rte_def Let_def)

lemma g_squares2: "fadd (Fin (2145382576815509 / 2 ^ 60)) (Fin (2145382576815509 / 2 ^ 60)) = Fin (2145382576815509 / 2 ^ 59)"
  unfolding fadd.simps
  by (subst rnd_eval [where e = "- 9"]) (simp_all add: rte_def Let_def)

lemma g_squares3: "fadd (Fin (2145382576815509 / 2 ^ 59)) (Fin (2145382576815509 / 2 ^ 60)) = Fin (6436147730446527 / 2 ^ 60)"
  unfolding fadd.simps
  by (subst rnd_eval [where e = "- 8"]) (simp_all add: rte_def Let_def)

lemma g_mean_square: "fdiv (Fin (6436147730446527 / 2 ^ 60)) (Fin 3) = Fin (2145382576815509 / 2 ^ 60)"
  unfolding fdiv.simps
  by (subst rnd_eval [where e = "- 10"]) (simp_all add: rte_def Let_def)

lemma g_square_mean: "fmul (Fin (6216733603272213 / 2 ^ 57)) (Fin (6216733603272213 / 2 ^ 57)) = Fin (4290765153631017 / 2 ^ 61)"
  unfolding fmul.simps
  by (subst rnd_eval [where e = "- 10"]) (simp_all add: rte_def Let_def)

lemma g_variance: "fsub (Fin (2145382576815509 / 2 ^ 60)) (Fin (4290765153631017 / 2 ^ 61)) = Fin (1 / 2 ^ 61)"
  unfolding fsub_def fneg.simps fadd.simps
  by (subst rnd_eval [where e = "- 61"]) (simp_all add: rte_def Let_def)

lemma length3: "real (length [a, b, c]) = 3"
  by simp

lemma gray_offsets: "spec_offsets 9 1 27 3 = [0, 12, 24]"
  by (simp add: spec_offsets_def spec_rows_def spec_cols_def steps_rec)

lemma gray_pixel:
  assumes "i < 27"
  shows "pixel_at gray_row i = Fin 11"
  using assms by (simp add: pixel_at_def gray_row_def)

lemma gray_channel:
  assumes "i < 27"
  shows "channel gray_row i = (Fin (3108366801636107 / 2 ^ 56))"
  unfolding channel_def by (simp only: gray_pixel [OF assms] g_channel)

lemma gray_luminosity:
  assumes "i + 2 < 27"
  shows "spec_luminosity gray_row i = (Fin (3108366801636107 / 2 ^ 56))"
proof -
  from assms have i: "i < 27" "Suc i < 27" "Suc (Suc i) < 27"
    by simp_all
  have "spec_luminosity gray_row i = luminosity_of (Fin (3108366801636107 / 2 ^ 56)) (Fin (3108366801636107 / 2 ^ 56)) (Fin (3108366801636107 / 2 ^ 56))"
    by (simp only: luminosity_spec [symmetric] i gray_channel)
  also have "\<dots> = (Fin (3108366801636107 / 2 ^ 56))"
    unfolding luminosity_of_def lit_299 lit_587 lit_114 c299_def c587_def c114_def
      g_red g_green g_blue g_red_green g_lum ..
  finally show ?thesis .
qed

lemma gray_luminosities:
  "spec_luminosities gray_row 9 1 27 3 = [(Fin (3108366801636107 / 2 ^ 56)), (Fin (3108366801636107 / 2 ^ 56)), (Fin (3108366801636107 / 2 ^ 56))]"
proof -
  have "spec_luminosity gray_row 0 = (Fin (3108366801636107 / 2 ^ 56))" "spec_luminosity gray_row 12 = (Fin (3108366801636107 / 2 ^ 56))"
    "spec_luminosity gray_row 24 = (Fin (3108366801636107 / 2 ^ 56))"
    by (rule gray_luminosity, simp)+
  then show ?thesis
    unfolding spec_luminosities_def gray_offsets by (simp only: list.map)
qed

lemma gray_mean: "meanLuminance (analyzePixels gray_row 9 1 27 3) = (Fin (6216733603272213 / 2 ^ 57))"
  unfolding analyzePixels_mean gray_luminosities spec_mean_def spec_sum_def
  by (simp only: foldl.simps length3 g_total1 g_total2 g_total3 g_mean)

lemma gray_min: "minLuminosity (analyzePixels gray_row 9 1 27 3) = (Fin (3108366801636107 / 2 ^ 56))"
proof -
  have l: "spec_luminosity gray_row 0 = (Fin (3108366801636107 / 2 ^ 56))" "spec_luminosity gray_row 12 = (Fin (3108366801636107 / 2 ^ 56))"
    "spec_luminosity gray_row 24 = (Fin (3108366801636107 / 2 ^ 56))"
    by (rule gray_luminosity, simp)+
  show ?thesis
    unfolding analyzePixels_min gray_offsets
    by (simp only: foldl.simps sample_pixel_min l) (simp add: sampler_init_def)
qed

lemma gray_holds: "holds_region gray_row 9 1 27 3"
  by (simp add: holds_region_def gray_row_def)

lemma gray_count: "sampleCount (analyzePixels gray_row 9 1 27 3) = 3"
  unfolding analyzePixels_count gray_offsets by simp

lemma gray_std:
  "luminanceStd (analyzePixels gray_row 9 1 27 3) = rnd (sqrt (1 / 2 ^ 61))"
  unfolding analyzePixels_std gray_luminosities spec_std_def spec_mean_def spec_sum_def
  by (simp only: list.map foldl.simps length3 g_total1 g_total2 g_total3 g_mean g_square
      g_squares1 g_squares2 g_squares3 g_mean_square g_square_mean g_variance)
     simp

section \<open>Classification: the decision table\<close>

lemma determineStyle_cases:
  "determineStyle a t =
     (if isBgDark a t then (if isBusy a t then TranslucentDark else Dark)
      else (if isBusy a t then TranslucentLight else Light))"
  by (simp add: determineStyle_def state_of_def)

lemma determineStyle_labels:
  "determineStyle a t = Dark \<or> determineStyle a t = Light \<or>
   determineStyle a t = TranslucentDark \<or> determineStyle a t = TranslucentLight"
  by (simp add: determineStyle_cases)

lemma default_luminanceThreshold_value:
  "default_luminanceThreshold = Fin (2589569785738035 / 2 ^ 52)"
  unfolding default_luminanceThreshold_def lit_def
  by (subst rnd_eval [where e = "- 1"]) (simp_all add: rte_def Let_def)

lemma STD_THRESHOLD_value: "STD_THRESHOLD = Fin (6358023003346583 / 2 ^ 55)"
  unfolding STD_THRESHOLD_def fdiv.simps
  by (subst rnd_eval [where e = "- 3"]) (simp_all add: rte_def Let_def)

text \<open>
  Claim C1. For every statistics record and every threshold, \<open>#determineStyle\<close>
  returns the label of the 2x2 decision table of the specification, with
  \<open>isDark\<close> and \<open>isBusy\<close> computed as the specification words them.
\<close>

theorem determineStyle_is_decision_table:
  "determineStyle a t = spec_table (spec_isDark a t) (spec_isBusy a t)"
proof -
  have d: "spec_isDark a t = isBgDark a t"
    by (simp add: spec_isDark_def isBgDark_def)
  have b: "spec_isBusy a t = isBusy a t"
    by (simp add: spec_isBusy_def isBusy_def highVariance_def nearBoundary_def
        highContrast_def range_of_def STD_THRESHOLD_def)
  show ?thesis
    unfolding d b determineStyle_cases
    by (cases "isBgDark a t"; cases "isBusy a t") simp_all
qed

theorem determineStyle_is_decision_table_witness:
  "determineStyle bright_stats default_luminanceThreshold = Light
   \<and> spec_table (spec_isDark bright_stats default_luminanceThreshold)
                 (spec_isBusy bright_stats default_luminanceThreshold) = Light"
proof -
  have "determineStyle bright_stats default_luminanceThreshold = Light"
    by (simp add: determineStyle_cases isBgDark_def isBusy_def highVariance_def
        nearBoundary_def highContrast_def range_of_def bright_stats_def
        default_luminanceThreshold_value STD_THRESHOLD_value fgt_def fsub_def lit_half)
  with determineStyle_is_decision_table [of bright_stats default_luminanceThreshold]
  show ?thesis
    by simp
qed

section \<open>Sampling: the checkerboard and the statistics\<close>

text \<open>
  Claim C2. \<open>#analyzePixels\<close> samples exactly the pixels of the checkerboard of the
  specification (rows 0, 2, 4, ... below the height; columns from 0 when the row is a
  multiple of 4 and from 2 otherwise, in steps of 4 below the width), reads each at
  byte offset \<open>y * rowStride + x * channels\<close>, takes the weighted sum of its three
  normalised colour bytes as luminosity, and returns the mean \<open>sum / count\<close> and the
  deviation \<open>sqrt (max 0 (sumSquares / count - mean * mean))\<close> of these luminosities.
\<close>

theorem analyzePixels_refines_sampling_spec:
  "sampleCount (analyzePixels pixels w h rowStride channels) =
     length (spec_offsets w h rowStride channels)
   \<and> meanLuminance (analyzePixels pixels w h rowStride channels) =
     spec_mean (spec_luminosities pixels w h rowStride channels)
   \<and> luminanceStd (analyzePixels pixels w h rowStride channels) =
     spec_std (spec_luminosities pixels w h rowStride channels)"
  by (simp only: analyzePixels_count analyzePixels_mean analyzePixels_std)

section \<open>The analyzed region\<close>

text \<open>
  When the rectangle that \<open>analyze\<close> computes lies inside the image, the statistics
  are those of the crop; otherwise the library returns null and the \<open>catch\<close> branch
  answers.
\<close>

lemma crop_rect_eq:
  "crop_rect full panelHeight =
     (4, 4, max 1 (int (get_width full) - 2 * 4),
      max 0 (min panelHeight (int (get_height full)) - 4))"
  by (simp add: crop_rect_def PADDING_def Let_def)

lemma analyze_inside:
  assumes "new_from_file decode files path = Inr full"
    and "inside full 4 4 (max 1 (int (get_width full) - 2 * 4))
           (max 0 (min panelHeight (int (get_height full)) - 4))"
  shows "fst (analyze decode files path t panelHeight c) =
     StyleResult
       (determineStyle
          (analyzeTopRegion (crop full 4 4 (max 1 (int (get_width full) - 2 * 4))
             (max 0 (min panelHeight (int (get_height full)) - 4)))) t)
       (analyzeTopRegion (crop full 4 4 (max 1 (int (get_width full) - 2 * 4))
          (max 0 (min panelHeight (int (get_height full)) - 4))))"
  using assms by (simp add: analyze_def crop_rect_eq new_subpixbuf_def Let_def)

lemma analyze_refused:
  assumes "new_from_file decode files path = Inr full"
    and "\<not> inside full 4 4 (max 1 (int (get_width full) - 2 * 4))
           (max 0 (min panelHeight (int (get_height full)) - 4))"
  shows "fst (analyze decode files path t panelHeight c) =
     Fallback Dark (Fin (1 / 2)) null_message"
  using assms by (simp add: analyze_def crop_rect_eq new_subpixbuf_def lit_half)

lemma inside_iff:
  "inside full 4 4 (max 1 (int (get_width full) - 2 * 4))
     (max 0 (min panelHeight (int (get_height full)) - 4))
   \<longleftrightarrow> 5 \<le> get_width full \<and> 5 \<le> min panelHeight (int (get_height full))"
  by (auto simp: inside_def)

lemma one_file_loads:
  "new_from_file decode_black one_file ''/wallpaper.png'' = Inr black_100"
  "new_from_file decode_narrow one_file ''/wallpaper.png'' = Inr narrow_10"
  "new_from_file decode_black one_file ''/missing.png'' = Inl ''Failed to open file''"
  by (simp_all add: new_from_file_def decode_black_def decode_narrow_def one_file_def)




section \<open>Failures and empty regions\<close>

text \<open>
  A region of at least one row and one column, as every pixbuf is, yields a sample.
\<close>

lemma crop_sampled:
  assumes "inside full src_x src_y w h"
  shows "1 \<le> sampleCount (analyzeTopRegion (crop full src_x src_y w h))"
proof -
  from assms have "1 \<le> w" "1 \<le> h"
    by (simp_all add: inside_def)
  then have "1 \<le> nat w" "1 \<le> nat h"
    by linarith+
  from spec_offsets_first [OF this] obtain rest where
    "spec_offsets (nat w) (nat h) (get_rowstride full) (if get_has_alpha full then 4 else 3)
       = 0 # rest"
    by blast
  then show ?thesis
    by (simp add: analyzeTopRegion_def analyzePixels_count crop_def)
qed



section \<open>Threshold monotonicity\<close>

text \<open>
  Claim C5. For fixed statistics and thresholds \<open>t1 > t2\<close>: a light-family label at
  \<open>t1\<close> stays a light-family label at the lower threshold \<open>t2\<close>.
\<close>

theorem threshold_monotone:
  assumes "fgt t1 t2" and "light_family (determineStyle a t1)"
  shows "light_family (determineStyle a t2)"
proof -
  from assms(2) have notdark: "\<not> flt (meanLuminance a) t1"
    by (auto simp: light_family_def determineStyle_cases isBgDark_def split: if_splits)
  from assms(1) have "flt t2 t1"
    by (simp add: fgt_def)
  with notdark have "\<not> flt (meanLuminance a) t2"
    by (rule flt_antimono_right)
  then show ?thesis
    by (simp add: light_family_def determineStyle_cases isBgDark_def)
qed

theorem threshold_monotone_witness:
  "fgt (Fin (1 / 2)) (Fin (1 / 4))
   \<and> light_family (determineStyle bright_stats (Fin (1 / 2)))
   \<and> light_family (determineStyle bright_stats (Fin (1 / 4)))"
proof -
  have gt: "fgt (Fin (1 / 2)) (Fin (1 / 4))"
    by (simp add: fgt_def)
  have light: "light_family (determineStyle bright_stats (Fin (1 / 2)))"
    by (simp add: light_family_def determineStyle_cases isBgDark_def bright_stats_def)
  from threshold_monotone [OF gt light] gt light show ?thesis
    by simp
qed

section \<open>Ranges of the statistics\<close>







section \<open>Labels\<close>

text \<open>
  Claim C9. For every input, the style of the result of \<open>analyze\<close> is one of
  dark, light, translucent-dark and translucent-light; it is never maximized.
\<close>

theorem analyze_style_labels:
  "result_style (fst (analyze decode files path t panelHeight c))
     \<in> {Dark, Light, TranslucentDark, TranslucentLight}
   \<and> result_style (fst (analyze decode files path t panelHeight c)) \<noteq> Maximized"
proof (cases "new_from_file decode files path")
  case (Inl message)
  then show ?thesis
    by (simp add: analyze_def)
next
  case (Inr fullPixbuf)
  obtain src_x src_y w h where rect: "crop_rect fullPixbuf panelHeight = (src_x, src_y, w, h)"
    by (cases "crop_rect fullPixbuf panelHeight") auto
  show ?thesis
  proof (cases "new_subpixbuf fullPixbuf src_x src_y w h")
    case None
    with Inr rect show ?thesis
      by (simp add: analyze_def)
  next
    case (Some bgSlice)
    with Inr rect have
      "result_style (fst (analyze decode files path t panelHeight c)) =
         determineStyle (analyzeTopRegion bgSlice) t"
      by (simp add: analyze_def Let_def)
    with determineStyle_labels [of "analyzeTopRegion bgSlice" t] show ?thesis
      by auto
  qed
qed

section \<open>The sample count\<close>



end
